theory Spec2Isabelle
  imports Complex_Main "HOL-Library.Sublist" "HOL-Library.Log_Nat"
begin

section \<open>Strings as the front end handles them\<close>

text \<open>
  JavaScript strings are modelled as \<^typ>\<open>string\<close>: a list of 8-bit code units. The
  white space that \<^verbatim>\<open>String.prototype.trim\<close> removes is, in that range, TAB, LF, VT,
  FF, CR, SPACE and NBSP.
\<close>

definition is_space :: "char \<Rightarrow> bool" where
  "is_space c = (c \<in> set [CHR 0x09, CHR 0x0A, CHR 0x0B, CHR 0x0C, CHR 0x0D, CHR 0x20, CHR 0xA0])"

definition trim :: "string \<Rightarrow> string" where
  "trim s = rev (dropWhile is_space (rev (dropWhile is_space s)))"

text \<open>\<^verbatim>\<open>url.replace(/\/+$/, '')\<close>: the trailing run of slashes is removed.\<close>

definition strip_trailing_slashes :: "string \<Rightarrow> string" where
  "strip_trailing_slashes s = rev (dropWhile (\<lambda>c. c = CHR ''/'') (rev s))"

text \<open>\<^verbatim>\<open>s.startsWith(p)\<close>.\<close>

definition startsWith :: "string \<Rightarrow> string \<Rightarrow> bool" where
  "startsWith s p = (take (length p) s = p)"

section \<open>Regular expressions\<close>

text \<open>
  The patterns of the source use character classes, concatenation, alternation,
  \<^verbatim>\<open>*\<close>, \<^verbatim>\<open>+\<close>, \<^verbatim>\<open>?\<close> and bounded repetition; none has a back reference or a
  look-around, so \<^verbatim>\<open>RegExp.prototype.test\<close> decides membership in a regular language.
  \<open>rmatch r s\<close> lists the rests of \<open>s\<close> left after a prefix matched by \<open>r\<close>.
\<close>

datatype rx =
    Sym "char \<Rightarrow> bool"
  | Eps
  | Seq rx rx
  | Alt rx rx
  | Star rx
  | Upto nat rx

primrec reach :: "(string \<Rightarrow> string list) \<Rightarrow> nat \<Rightarrow> string list \<Rightarrow> string list" where
  "reach f 0 ss = ss"
| "reach f (Suc n) ss = remdups (ss @ reach f n (remdups (concat (map f ss))))"

primrec rmatch :: "rx \<Rightarrow> string \<Rightarrow> string list" where
  "rmatch (Sym p) s = (case s of [] \<Rightarrow> [] | c # cs \<Rightarrow> if p c then [cs] else [])"
| "rmatch Eps s = [s]"
| "rmatch (Seq a b) s = remdups (concat (map (rmatch b) (rmatch a s)))"
| "rmatch (Alt a b) s = remdups (rmatch a s @ rmatch b s)"
| "rmatch (Star a) s = reach (rmatch a) (length s) [s]"
| "rmatch (Upto n a) s = reach (rmatch a) n [s]"

text \<open>\<^verbatim>\<open>/^r/.test(s)\<close> and \<^verbatim>\<open>/^r$/.test(s)\<close> (no \<^verbatim>\<open>m\<close> flag: \<^verbatim>\<open>$\<close> is the end of input).\<close>

definition test_prefix :: "rx \<Rightarrow> string \<Rightarrow> bool" where
  "test_prefix r s = (rmatch r s \<noteq> [])"

definition test_full :: "rx \<Rightarrow> string \<Rightarrow> bool" where
  "test_full r s = ([] \<in> set (rmatch r s))"

definition Opt :: "rx \<Rightarrow> rx" where
  "Opt r = Alt r Eps"

definition Plus :: "rx \<Rightarrow> rx" where
  "Plus r = Seq r (Star r)"

fun Lit :: "string \<Rightarrow> rx" where
  "Lit [] = Eps"
| "Lit (c # cs) = Seq (Sym (\<lambda>x. x = c)) (Lit cs)"

text \<open>
  The language of a pattern, as the textbook has it; \<open>rmatch\<close> is shown below to compute
  exactly the rests after the prefixes in that language.
\<close>

primrec pow :: "string set \<Rightarrow> nat \<Rightarrow> string set" where
  "pow L 0 = {[]}"
| "pow L (Suc n) = {u @ v | u v. u \<in> L \<and> v \<in> pow L n}"

primrec lang :: "rx \<Rightarrow> string set" where
  "lang (Sym p) = {[c] | c. p c}"
| "lang Eps = {[]}"
| "lang (Seq a b) = {u @ v | u v. u \<in> lang a \<and> v \<in> lang b}"
| "lang (Alt a b) = lang a \<union> lang b"
| "lang (Star a) = (\<Union>n. pow (lang a) n)"
| "lang (Upto n a) = (\<Union>k\<in>{..n}. pow (lang a) k)"

text \<open>Character classes.\<close>

definition digit :: "char \<Rightarrow> bool" where
  "digit c = (c \<in> set ''0123456789'')"

definition alpha :: "char \<Rightarrow> bool" where
  "alpha c = (c \<in> set ''abcdefghijklmnopqrstuvwxyzABCDEFGHIJKLMNOPQRSTUVWXYZ'')"

definition alnum :: "char \<Rightarrow> bool" where
  "alnum c = (alpha c \<or> digit c)"

definition alnum_dash :: "char \<Rightarrow> bool" where
  "alnum_dash c = (alnum c \<or> c = CHR ''-'')"

text \<open>\<^verbatim>\<open>.\<close> matches every code unit but a line terminator.\<close>

definition any_char :: "char \<Rightarrow> bool" where
  "any_char c = (c \<noteq> CHR 0x0A \<and> c \<noteq> CHR 0x0D)"

text \<open>A letter under the \<^verbatim>\<open>i\<close> flag.\<close>

definition ci :: "char \<Rightarrow> char \<Rightarrow> char \<Rightarrow> bool" where
  "ci lo up c = (c = lo \<or> c = up)"

section \<open>The URL normaliser of the front end\<close>

text \<open>The two protocol tests, both under the \<^verbatim>\<open>i\<close> flag: \<^verbatim>\<open>/^https?:\/\//i\<close> and \<^verbatim>\<open>/^http:\/\//i\<close>.\<close>

definition http_letters :: rx where
  "http_letters =
     Seq (Sym (ci CHR ''h'' CHR ''H'')) (Seq (Sym (ci CHR ''t'' CHR ''T''))
       (Seq (Sym (ci CHR ''t'' CHR ''T'')) (Sym (ci CHR ''p'' CHR ''P''))))"

definition protocolPattern :: rx where
  "protocolPattern = Seq http_letters (Seq (Opt (Sym (ci CHR ''s'' CHR ''S''))) (Lit ''://''))"

definition httpPattern :: rx where
  "httpPattern = Seq http_letters (Lit ''://'')"

text \<open>\<^verbatim>\<open>(\/.*)?\<close> and \<^verbatim>\<open>(:\d+)?\<close>, the optional path and port.\<close>

definition pathPart :: rx where
  "pathPart = Opt (Seq (Lit ''/'') (Star (Sym any_char)))"

definition portPart :: rx where
  "portPart = Opt (Seq (Lit '':'') (Plus (Sym digit)))"

text \<open>\<^verbatim>\<open>[a-zA-Z0-9]([a-zA-Z0-9-]{0,61}[a-zA-Z0-9])?\<close>, one label of a host name.\<close>

definition label :: rx where
  "label = Seq (Sym alnum) (Opt (Seq (Upto 61 (Sym alnum_dash)) (Sym alnum)))"

text \<open>\<^verbatim>\<open>[a-zA-Z]{2,}\<close>.\<close>

definition tld :: rx where
  "tld = Seq (Sym alpha) (Seq (Sym alpha) (Star (Sym alpha)))"

text \<open>\<^verbatim>\<open>/^([a-zA-Z0-9]([a-zA-Z0-9-]{0,61}[a-zA-Z0-9])?\.)+[a-zA-Z]{2,}(\/.*)?$/\<close>\<close>

definition domainPattern :: rx where
  "domainPattern = Seq (Plus (Seq label (Lit ''.''))) (Seq tld pathPart)"

text \<open>\<^verbatim>\<open>/^[a-zA-Z0-9][a-zA-Z0-9-]*[a-zA-Z0-9]*\.[a-zA-Z]{2,}(\/.*)?$/\<close>\<close>

definition simpleDomainPattern :: rx where
  "simpleDomainPattern =
     Seq (Sym alnum) (Seq (Star (Sym alnum_dash)) (Seq (Star (Sym alnum))
       (Seq (Lit ''.'') (Seq tld pathPart))))"

text \<open>\<^verbatim>\<open>/^(localhost|127\.0\.0\.1|0\.0\.0\.0)(:\d+)?(\/.*)?$/\<close>\<close>

definition localhostPattern :: rx where
  "localhostPattern =
     Seq (Alt (Lit ''localhost'') (Alt (Lit ''127.0.0.1'') (Lit ''0.0.0.0'')))
       (Seq portPart pathPart)"

text \<open>\<^verbatim>\<open>/^\d{1,3}\.\d{1,3}\.\d{1,3}\.\d{1,3}(:\d+)?(\/.*)?$/\<close>\<close>

definition octet :: rx where
  "octet = Seq (Sym digit) (Upto 2 (Sym digit))"

definition ipPattern :: rx where
  "ipPattern =
     Seq octet (Seq (Lit ''.'') (Seq octet (Seq (Lit ''.'') (Seq octet (Seq (Lit ''.'')
       (Seq octet (Seq portPart pathPart)))))))"

definition looks_like_domain :: "string \<Rightarrow> bool" where
  "looks_like_domain url =
     (test_full domainPattern url \<or> test_full simpleDomainPattern url \<or>
      test_full localhostPattern url \<or> test_full ipPattern url)"

text \<open>
  \<^verbatim>\<open>normalizeUrl\<close> of \<^verbatim>\<open>utils/urlNormalizer\<close>. The argument is a string, so
  \<^verbatim>\<open>!input\<close> holds for the empty string only.
\<close>

definition normalizeUrl :: "string \<Rightarrow> string" where
  "normalizeUrl input =
     (if input = [] then input
      else
        let url = trim input;
            url = strip_trailing_slashes url
        in
          if test_prefix protocolPattern url then
            (if test_prefix httpPattern url then ''https://'' @ drop 7 url else url)
          else if startsWith url ''//'' then ''https:'' @ url
          else if looks_like_domain url then ''https://'' @ url
          else url)"

text \<open>The two patterns of the \<^verbatim>\<open>normalizeUrl\<close> local to the Hero component.\<close>

definition heroDomainPattern :: rx where
  "heroDomainPattern = Seq label (Seq (Star (Seq (Lit ''.'') label)) (Seq (Lit ''.'') tld))"

definition hero_normalizeUrl :: "string \<Rightarrow> string" where
  "hero_normalizeUrl input =
     (if input = [] \<or> trim input = [] then input
      else
        let url = trim input
        in
          if test_prefix protocolPattern url then url
          else if startsWith url ''//'' then ''https:'' @ url
          else if test_prefix heroDomainPattern url then ''https://'' @ url
          else if test_full label url then ''https://'' @ url
          else if startsWith url ''/'' then url
          else ''https://'' @ url)"

text \<open>
  The submit path. \<^verbatim>\<open>handleSubmit\<close> of the Hero component does nothing on a blank field;
  otherwise it normalises the trimmed field with its own function and hands the result to
  \<^verbatim>\<open>handleAnalyze\<close>, which normalises it again and posts that address.
\<close>

definition submitted_url :: "string \<Rightarrow> string option" where
  "submitted_url field =
     (if trim field = [] then None
      else Some (normalizeUrl (hero_normalizeUrl (trim field))))"

text \<open>The input of the normaliser after its two cleaning steps.\<close>

definition clean :: "string \<Rightarrow> string" where
  "clean s = strip_trailing_slashes (trim s)"

text \<open>The branches of \<^verbatim>\<open>normalizeUrl\<close> that follow the cleaning.\<close>

definition upgraded :: "string \<Rightarrow> string" where
  "upgraded url =
     (if test_prefix protocolPattern url then
        (if test_prefix httpPattern url then ''https://'' @ drop 7 url else url)
      else if startsWith url ''//'' then ''https:'' @ url
      else if looks_like_domain url then ''https://'' @ url
      else url)"

section \<open>Strings as the back end handles them\<close>


definition to_lower :: "char \<Rightarrow> char" where
  "to_lower c =
     (case map_of (zip ''ABCDEFGHIJKLMNOPQRSTUVWXYZ'' ''abcdefghijklmnopqrstuvwxyz'') c of
        Some l \<Rightarrow> l | None \<Rightarrow> c)"


definition lower :: "string \<Rightarrow> string" where
  "lower s = map to_lower s"

datatype py_error = KeyError string

section \<open>Binary floating point\<close>

text \<open>
  Python's \<^verbatim>\<open>float\<close> is the binary64 format of IEEE 754. A float is modelled as the
  rational number it denotes, and an operation as the exact operation followed by
  \<open>binary64\<close>, the rounding to the nearest float with ties going to the even significand:
  a number of magnitude \<open>a\<close> with \<open>2 ^ e \<le> a < 2 ^ (e + 1)\<close> is rounded to a multiple of
  \<open>2 ^ (e - 52)\<close>, and below \<open>2 ^ - 1022\<close> to a multiple of \<open>2 ^ - 1074\<close>. A decimal
  literal denotes the float nearest to it. Overflow to infinity is not modelled.
\<close>

definition exponent :: "rat \<Rightarrow> int" where
  "exponent a = (if 1 \<le> a then bitlen \<lfloor>a\<rfloor> - 1 else - bitlen (\<lceil>1 / a\<rceil> - 1))"

definition pow2 :: "int \<Rightarrow> rat" where
  "pow2 k = (if 0 \<le> k then 2 ^ nat k else 1 / 2 ^ nat (- k))"

definition round_even :: "rat \<Rightarrow> int" where
  "round_even y =
     (let f = \<lfloor>y\<rfloor>; d = y - of_int f
      in if d < 1/2 then f else if 1/2 < d then f + 1 else if even f then f else f + 1)"

definition binary64 :: "rat \<Rightarrow> rat" where
  "binary64 x =
     (if x = 0 then 0
      else let q = pow2 (max (exponent \<bar>x\<bar>) (- 1022) - 52)
           in sgn x * of_int (round_even (\<bar>x\<bar> / q)) * q)"

section \<open>Category weights and the weighted score\<close>

text \<open>
  The weights are decimal literals. The table below holds them as exact rationals, and
  \<open>vendor_penalty\<close> and \<open>score_loop\<close> take the table as an argument and compute without
  rounding: on this table they give the value of each operation before it is rounded.
  \<open>calculate_weighted_score\<close>, further down, is the function as Python evaluates it: on
  the floats nearest to the literals, every product and difference rounded.
\<close>

definition VENDOR_CATEGORY_WEIGHTS :: "(string \<times> rat) list" where
  "VENDOR_CATEGORY_WEIGHTS =
     [(''Database/Storage'', 1.5),
      (''Cloud Infrastructure'', 1.4),
      (''Authentication'', 1.4),
      (''Payment Processing'', 1.4),
      (''AI/ML Processing'', 1.5),
      (''Email Service'', 1.2),
      (''Customer Support'', 1.2),
      (''SMS/Communications'', 1.2),
      (''Backup/DR'', 1.3),
      (''Analytics'', 1.0),
      (''Monitoring/APM'', 1.0),
      (''Error Tracking'', 1.0),
      (''CDN'', 0.8),
      (''DNS'', 0.6),
      (''Marketing/Email'', 0.9),
      (''A/B Testing'', 0.8)]"

text \<open>\<^verbatim>\<open>d.get(key, default)\<close> on a dictionary written as its list of items.\<close>

definition dict_get :: "('k \<times> 'v) list \<Rightarrow> 'k \<Rightarrow> 'v \<Rightarrow> 'v" where
  "dict_get d k dflt = (case map_of d k of Some v \<Rightarrow> v | None \<Rightarrow> dflt)"

text \<open>A vendor is a dictionary from field names to strings.\<close>

type_synonym vendor = "string \<rightharpoonup> string"

text \<open>\<^verbatim>\<open>weight = VENDOR_CATEGORY_WEIGHTS.get(vendor.get("category", "Unknown"), 1.0)\<close>\<close>

definition vendor_weight :: "(string \<times> rat) list \<Rightarrow> vendor \<Rightarrow> rat" where
  "vendor_weight weights v =
     (let category = (case v ''category'' of Some c \<Rightarrow> c | None \<Rightarrow> ''Unknown'')
      in dict_get weights category 1.0)"

text \<open>
  The body of the loop up to \<^verbatim>\<open>score -= penalty\<close>: the penalty of one vendor.
  \<^verbatim>\<open>vendor["location"]\<close> raises \<^verbatim>\<open>KeyError\<close> on a vendor without that field.
\<close>

definition vendor_penalty :: "(string \<times> rat) list \<Rightarrow> vendor \<Rightarrow> py_error + rat" where
  "vendor_penalty weights v =
     (let weight = vendor_weight weights v
      in case v ''location'' of
           None \<Rightarrow> Inl (KeyError ''location'')
         | Some location \<Rightarrow>
             Inr (if sublist ''US'' location then 12 * weight
                  else if sublist ''GLOBAL'' location then 8 * weight
                  else 0))"

text \<open>
  The state of a run: the module-level table, which the function reads, and its local
  variable \<^verbatim>\<open>score\<close>.
\<close>

record scoring_state =
  weights :: "(string \<times> rat) list"
  score :: rat


text \<open>
  The table as the interpreter holds it, and the penalty of one vendor as it computes it:
  \<^verbatim>\<open>12 * weight\<close> and \<^verbatim>\<open>8 * weight\<close> are products of an integer and a float, rounded.
\<close>

definition as_floats :: "(string \<times> rat) list \<Rightarrow> (string \<times> rat) list" where
  "as_floats tbl = map (\<lambda>(category, weight). (category, binary64 weight)) tbl"

definition float_penalty :: "vendor \<Rightarrow> py_error + rat" where
  "float_penalty v =
     (case vendor_penalty (as_floats VENDOR_CATEGORY_WEIGHTS) v of
        Inl e \<Rightarrow> Inl e
      | Inr penalty \<Rightarrow> Inr (binary64 penalty))"

text \<open>The loop, \<^verbatim>\<open>score -= penalty\<close> rounding the difference; its argument is the running score.\<close>

fun float_loop :: "rat \<Rightarrow> vendor list \<Rightarrow> py_error + rat" where
  "float_loop running [] = Inr running"
| "float_loop running (v # vs) =
     (case float_penalty v of
        Inl e \<Rightarrow> Inl e
      | Inr penalty \<Rightarrow> float_loop (binary64 (running - penalty)) vs)"

text \<open>\<^verbatim>\<open>score = 100\<close>, the loop, and \<^verbatim>\<open>return max(0, min(100, score))\<close>.\<close>

definition calculate_weighted_score :: "vendor list \<Rightarrow> py_error + rat" where
  "calculate_weighted_score vendors =
     (case float_loop 100 vendors of
        Inl e \<Rightarrow> Inl e
      | Inr running \<Rightarrow> Inr (max 0 (min 100 running)))"

text \<open>
  The two factors the specification names. \<open>basePenalty\<close> follows the three branches of
  the penalty; its argument is the location string.
\<close>

definition basePenalty :: "string \<Rightarrow> rat" where
  "basePenalty location =
     (if sublist ''US'' location then 12 else if sublist ''GLOBAL'' location then 8 else 0)"

definition categoryWeight :: "vendor \<Rightarrow> rat" where
  "categoryWeight v = vendor_weight VENDOR_CATEGORY_WEIGHTS v"






section \<open>Known services and the fingerprint matcher\<close>

record service_info =
  name :: string
  location :: string
  category :: string
  risk :: string
  note_opt :: "string option"

text \<open>The table \<^verbatim>\<open>KNOWN_SERVICES\<close>, a dictionary in the order it is written.\<close>

definition KNOWN_SERVICES :: "(string \<times> service_info) list" where
  "KNOWN_SERVICES =
     [(''google-analytics.com'',
         \<lparr>name = ''Google Analytics'', location = ''United States'', category = ''Analytics'',
          risk = ''High'', note_opt = None\<rparr>),
      (''mixpanel.com'',
         \<lparr>name = ''Mixpanel'', location = ''United States'', category = ''Analytics'',
          risk = ''High'', note_opt = None\<rparr>),
      (''segment.com'',
         \<lparr>name = ''Segment'', location = ''United States'', category = ''Analytics'',
          risk = ''High'', note_opt = None\<rparr>),
      (''plausible.io'',
         \<lparr>name = ''Plausible'', location = ''EU (Estonia)'', category = ''Analytics'',
          risk = ''Low'', note_opt = None\<rparr>),
      (''intercom.io'',
         \<lparr>name = ''Intercom'', location = ''United States'', category = ''Customer Support'',
          risk = ''Critical'', note_opt = None\<rparr>),
      (''zendesk.com'',
         \<lparr>name = ''Zendesk'', location = ''United States'', category = ''Customer Support'',
          risk = ''High'', note_opt = None\<rparr>),
      (''crisp.chat'',
         \<lparr>name = ''Crisp'', location = ''France'', category = ''Customer Support'',
          risk = ''Low'', note_opt = None\<rparr>),
      (''stripe.com'',
         \<lparr>name = ''Stripe'', location = ''United States'', category = ''Payment Processing'',
          risk = ''Critical'', note_opt = None\<rparr>),
      (''paypal.com'',
         \<lparr>name = ''PayPal'', location = ''United States'', category = ''Payment Processing'',
          risk = ''Critical'', note_opt = None\<rparr>),
      (''sendgrid.com'',
         \<lparr>name = ''SendGrid'', location = ''United States'', category = ''Email Service'',
          risk = ''High'', note_opt = None\<rparr>),
      (''mailgun.com'',
         \<lparr>name = ''Mailgun'', location = ''United States'', category = ''Email Service'',
          risk = ''High'', note_opt = None\<rparr>),
      (''s3.amazonaws.com'',
         \<lparr>name = ''AWS S3'', location = ''United States'', category = ''Cloud Storage'',
          risk = ''Critical'', note_opt = None\<rparr>),
      (''googleapis.com'',
         \<lparr>name = ''Google Cloud Storage'', location = ''United States'', category = ''Cloud Storage'',
          risk = ''Critical'', note_opt = None\<rparr>),
      (''fonts.googleapis.com'',
         \<lparr>name = ''Google Fonts'', location = ''United States'', category = ''CDN'',
          risk = ''Medium'', note_opt = Some ''Shares IP address with Google''\<rparr>),
      (''fonts.gstatic.com'',
         \<lparr>name = ''Google Fonts CDN'', location = ''United States'', category = ''CDN'',
          risk = ''Medium'', note_opt = None\<rparr>),
      (''api.openai.com'',
         \<lparr>name = ''OpenAI'', location = ''United States'', category = ''AI/ML'',
          risk = ''Critical'', note_opt = None\<rparr>),
      (''api.anthropic.com'',
         \<lparr>name = ''Anthropic'', location = ''United States'', category = ''AI/ML'',
          risk = ''Critical'', note_opt = None\<rparr>),
      (''sentry.io'',
         \<lparr>name = ''Sentry'', location = ''United States'', category = ''Error Tracking'',
          risk = ''High'', note_opt = None\<rparr>),
      (''datadoghq.com'',
         \<lparr>name = ''Datadog'', location = ''United States'', category = ''Monitoring'',
          risk = ''High'', note_opt = None\<rparr>)]"

text \<open>
  \<^verbatim>\<open>match_known_services\<close>: for every domain, for every entry of the table, the
  entry's information is appended when the entry's key occurs in the domain. The table is
  an argument, so that the function can be stated for every registry.
\<close>

definition matches_of :: "(string \<times> 'i) list \<Rightarrow> string \<Rightarrow> 'i list" where
  "matches_of registry domain =
     map snd (filter (\<lambda>(known_domain, service_info). sublist known_domain domain) registry)"

fun match_services :: "(string \<times> 'i) list \<Rightarrow> string list \<Rightarrow> 'i list" where
  "match_services registry [] = []"
| "match_services registry (domain # domains) =
     matches_of registry domain @ match_services registry domains"

definition match_known_services :: "string list \<Rightarrow> service_info list" where
  "match_known_services domains = match_services KNOWN_SERVICES domains"

text \<open>
  \<^verbatim>\<open>detect_known_services\<close> scans the lower-cased markup once for every entry of the
  registry loaded from \<^verbatim>\<open>known_services.json\<close>, a dictionary of dictionaries: category
  group, then domain. The file is data read at start-up, hence an argument here; \<open>'i\<close> is
  the information it stores for a service. A record found is that information with the
  domain and the category group added.
\<close>

record 'i detected =
  info :: 'i
  domain :: string
  category_group :: string

definition detect_in_group :: "string \<Rightarrow> string \<Rightarrow> (string \<times> 'i) list \<Rightarrow> 'i detected list" where
  "detect_in_group html_lower cat services =
     map (\<lambda>(d, i). \<lparr>info = i, domain = d, category_group = cat\<rparr>)
       (filter (\<lambda>(d, i). sublist d html_lower) services)"

definition detect_known_services ::
  "(string \<times> (string \<times> 'i) list) list \<Rightarrow> string \<Rightarrow> 'i detected list" where
  "detect_known_services registry html_content =
     (let html_lower = lower html_content
      in concat (map (\<lambda>(cat, services). detect_in_group html_lower cat services) registry))"

text \<open>The keys of the nested registry, in its order.\<close>

definition registry_keys :: "(string \<times> (string \<times> 'i) list) list \<Rightarrow> (string \<times> string) list" where
  "registry_keys registry =
     concat (map (\<lambda>(cat, services). map (\<lambda>(d, i). (cat, d)) services) registry)"

section \<open>The resource extractor\<close>



record resource =
  url :: string
  rdomain :: string
  rnote :: "string option"










section \<open>The merge engine\<close>












section \<open>Notions used in the statements\<close>

text \<open>Every character class of a pattern lies within \<open>Q\<close>.\<close>

primrec syms_in :: "(char \<Rightarrow> bool) \<Rightarrow> rx \<Rightarrow> bool" where
  "syms_in Q (Sym p) = (\<forall>c. p c \<longrightarrow> Q c)"
| "syms_in Q Eps = True"
| "syms_in Q (Seq a b) = (syms_in Q a \<and> syms_in Q b)"
| "syms_in Q (Alt a b) = (syms_in Q a \<and> syms_in Q b)"
| "syms_in Q (Star a) = syms_in Q a"
| "syms_in Q (Upto n a) = syms_in Q a"

definition hostchar :: "char \<Rightarrow> bool" where
  "hostchar c = (alnum_dash c \<or> c = CHR ''.'')"

text \<open>After the longest prefix of host-name characters the string ends or a path begins.\<close>

definition host_then_path :: "string \<Rightarrow> bool" where
  "host_then_path s =
     (dropWhile hostchar s = [] \<or> hd (dropWhile hostchar s) = CHR ''/'')"








section \<open>The weighted score\<close>

lemma vendor_penalty_located:
  "v ''location'' \<noteq> None \<Longrightarrow> \<exists>p. vendor_penalty tbl v = Inr p"
  by (auto simp: vendor_penalty_def Let_def)








section \<open>Rounding\<close>

lemma pow2_pos: "0 < pow2 k"
  by (simp add: pow2_def)



lemma round_even_near: "\<bar>of_int (round_even y) - y\<bar> \<le> 1/2"
proof -
  have "of_int \<lfloor>y\<rfloor> \<le> y" "y < of_int \<lfloor>y\<rfloor> + 1" by linarith+
  then show ?thesis by (simp add: round_even_def Let_def)
qed






text \<open>The result of a rounding is within half a unit in the last place of its argument.\<close>

lemma binary64_near:
  "\<bar>binary64 x - x\<bar> \<le> pow2 (max (exponent \<bar>x\<bar>) (- 1022) - 52) / 2"
proof (cases "x = 0")
  case True
  then show ?thesis using pow2_pos [of "max (exponent \<bar>x\<bar>) (- 1022) - 52"]
    by (simp add: binary64_def)
next
  case False
  define q where "q = pow2 (max (exponent \<bar>x\<bar>) (- 1022) - 52)"
  have q: "0 < q" by (simp add: q_def pow2_pos)
  have "binary64 x - x = sgn x * ((of_int (round_even (\<bar>x\<bar> / q)) - \<bar>x\<bar> / q) * q)"
    using False q by (simp add: binary64_def Let_def q_def algebra_simps sgn_if)
  then have "\<bar>binary64 x - x\<bar> = \<bar>of_int (round_even (\<bar>x\<bar> / q)) - \<bar>x\<bar> / q\<bar> * q"
    using False q by (simp add: abs_mult sgn_if)
  also have "\<dots> \<le> (1/2) * q"
    using round_even_near [of "\<bar>x\<bar> / q"] q by (simp only: mult_le_cancel_right) simp
  finally show ?thesis by (simp add: q_def)
qed

text \<open>
  Values of the rounding, as the interpreter prints them: \<^verbatim>\<open>1.4\<close>, \<^verbatim>\<open>12 * 1.4\<close>
  (16.799999999999997), \<^verbatim>\<open>0.1\<close>, \<^verbatim>\<open>1/3\<close>, and two numbers half way between floats
  (\<^verbatim>\<open>1 + 2 ** -53\<close> is 1.0).
\<close>

lemma binary64_values:
  "binary64 (14/10) = 3152519739159347 / 2 ^ 51
 \<and> binary64 (12 * binary64 (14/10)) = 1182194902184755 / 2 ^ 46
 \<and> binary64 (1/10) = 3602879701896397 / 2 ^ 55
 \<and> binary64 (1/3) = 6004799503160661 / 2 ^ 54
 \<and> binary64 (1 + 1 / 2 ^ 53) = 1
 \<and> binary64 (1 + 3 / 2 ^ 53) = 1 + 1 / 2 ^ 51
 \<and> binary64 (- 6/10) = - 5404319552844595 / 2 ^ 53
 \<and> binary64 100 = 100"
  by code_simp

section \<open>The score\<close>



lemma binary64_1: "binary64 1 = 1"
  by code_simp

lemma dict_get_as_floats:
  "binary64 dflt = dflt \<Longrightarrow> dict_get (as_floats tbl) k dflt = binary64 (dict_get tbl k dflt)"
  by (simp add: dict_get_def as_floats_def map_of_map split: option.splits)

text \<open>
  The penalty at run time is the product of the two factors, the weight rounded when the
  table is read in and the product rounded again.
\<close>

lemma float_penalty_factors:
  "v ''location'' = Some loc \<Longrightarrow>
   float_penalty v = Inr (binary64 (basePenalty loc * binary64 (categoryWeight v)))"
  by (simp add: float_penalty_def vendor_penalty_def basePenalty_def categoryWeight_def
        vendor_weight_def Let_def dict_get_as_floats binary64_1)

lemma float_penalty_code [code]:
  "float_penalty v =
     (case v ''location'' of
        None \<Rightarrow> Inl (KeyError ''location'')
      | Some loc \<Rightarrow> Inr (binary64 (basePenalty loc * binary64 (categoryWeight v))))"
  by (cases "v ''location''")
     (simp_all add: float_penalty_factors, simp add: float_penalty_def vendor_penalty_def Let_def)


lemma float_penalty_located: "v ''location'' \<noteq> None \<Longrightarrow> \<exists>p. float_penalty v = Inr p"
  by (auto simp: float_penalty_def vendor_penalty_def Let_def)

lemma float_loop_located:
  "\<forall>v\<in>set vs. v ''location'' \<noteq> None \<Longrightarrow> \<exists>r. float_loop t vs = Inr r"
proof (induction vs arbitrary: t)
  case Nil
  then show ?case by simp
next
  case (Cons v vs)
  from Cons.prems obtain p where p: "float_penalty v = Inr p"
    using float_penalty_located by (metis list.set_intros(1))
  from Cons.prems have rest: "\<forall>v\<in>set vs. v ''location'' \<noteq> None" by simp
  show ?case using Cons.IH [OF rest, of "binary64 (t - p)"] p by simp
qed







text \<open>
  Scores as the interpreter prints them. Three payment processors marked \<^verbatim>\<open>US\<close>: the
  exact deductions are 3 * 16.8 and the score is 49.60000000000001. Six vendors whose
  exact deductions sum to 100 (4 * 18 + 16.8 + 11.2): the score is
  3.552713678800501e-15, not 0.
\<close>

lemma score_values:
  "calculate_weighted_score
     (replicate 3 [''location'' \<mapsto> ''US'', ''category'' \<mapsto> ''Payment Processing'']) =
     Inr (3490289711212135 / 2 ^ 46)
 \<and> calculate_weighted_score
     (replicate 4 [''location'' \<mapsto> ''US'', ''category'' \<mapsto> ''Database/Storage''] @
      [[''location'' \<mapsto> ''US'', ''category'' \<mapsto> ''Cloud Infrastructure''],
       [''location'' \<mapsto> ''GLOBAL'', ''category'' \<mapsto> ''Cloud Infrastructure'']]) =
     Inr (1 / 2 ^ 48)"
  by code_simp

section \<open>The merged vendor set\<close>









section \<open>The fingerprint matcher\<close>

lemma matches_of_count:
  "length (filter P (matches_of reg d)) =
   length (filter (\<lambda>(k, i). sublist k d \<and> P i) reg)"
  unfolding matches_of_def
  by (induction reg) auto

lemma match_services_count:
  "length (filter P (match_services reg ds)) =
   sum_list (map (\<lambda>d. length (filter (\<lambda>(k, i). sublist k d \<and> P i) reg)) ds)"
  by (induction ds) (simp_all add: matches_of_count)

lemma detect_in_group_keys:
  "map (\<lambda>r. (category_group r, domain r)) (detect_in_group h g svcs) =
   filter (\<lambda>(c, d). sublist d h) (map (\<lambda>(d, i). (g, d)) svcs)"
  unfolding detect_in_group_def
  by (induction svcs) auto

lemma detect_keys:
  "map (\<lambda>r. (category_group r, domain r)) (detect_known_services reg html) =
   filter (\<lambda>(c, d). sublist d (lower html)) (registry_keys reg)"
  unfolding detect_known_services_def registry_keys_def Let_def
  by (induction reg) (auto simp: detect_in_group_keys)

text \<open>
  The claim C5 as stated fails for \<^verbatim>\<open>match_known_services\<close>: two host names of one
  service give two records of that service.
\<close>

theorem repeated_service_counterexample:
  "map name (match_known_services [''js.stripe.com'', ''checkout.stripe.com'']) =
     [''Stripe'', ''Stripe'']"
  by code_simp

text \<open>
  C5, amended. For every registry \<open>flat\<close> and every way \<open>display\<close> to read a display
  name, \<^verbatim>\<open>match_known_services\<close> returns one record for every pair of an input
  domain and a registry entry whose key occurs in that domain: the number of records of
  display name \<open>n\<close> is the number of such pairs over all input domains, counted with
  repetition. \<^verbatim>\<open>detect_known_services\<close>, which scans the markup, returns exactly one
  record for every registry entry whose key occurs in the lower-cased markup, in the order
  of the registry, however often the key occurs.
\<close>

theorem one_record_per_match:
  "length (filter (\<lambda>i. display i = n) (match_services flat domains)) =
     sum_list (map (\<lambda>d. length (filter (\<lambda>(k, i). sublist k d \<and> display i = n) flat)) domains)
 \<and> match_known_services domains = match_services KNOWN_SERVICES domains
 \<and> map (\<lambda>r. (category_group r, domain r)) (detect_known_services registry html) =
     filter (\<lambda>(c, d). sublist d (lower html)) (registry_keys registry)"
  using match_services_count [of "\<lambda>i. display i = n" flat domains] detect_keys [of registry html]
  by (simp add: match_known_services_def)

section \<open>The resource extractor: what is kept\<close>











section \<open>The resource extractor: what is deduplicated\<close>








section \<open>The URL normaliser: cleaning\<close>

lemma rstrip_last:
  "rev (dropWhile Q (rev s)) = [] \<or> \<not> Q (last (rev (dropWhile Q (rev s))))"
proof (cases "dropWhile Q (rev s)")
  case Nil
  then show ?thesis by simp
next
  case (Cons x xs)
  then have "\<not> Q x" using hd_dropWhile [of Q "rev s"] by auto
  then show ?thesis using Cons by simp
qed

lemma rstrip_fixed:
  "s = [] \<or> \<not> Q (last s) \<Longrightarrow> rev (dropWhile Q (rev s)) = s"
  by (cases s rule: rev_cases) auto

lemma rstrip_prefix: "prefix (rev (dropWhile Q (rev s))) s"
proof -
  have "suffix (dropWhile Q (rev s)) (rev s)"
    by (rule suffix_dropWhile)
  then show ?thesis
    by (metis rev_rev_ident suffix_to_prefix)
qed

lemma rstrip_hd:
  "rev (dropWhile Q (rev s)) \<noteq> [] \<Longrightarrow> hd (rev (dropWhile Q (rev s))) = hd s"
  using rstrip_prefix [of Q s] by (metis hd_append2 prefixE)

lemma trim_hd: "trim s \<noteq> [] \<Longrightarrow> \<not> is_space (hd (trim s))"
proof -
  assume n: "trim s \<noteq> []"
  have d: "dropWhile is_space s \<noteq> []"
  proof
    assume a: "dropWhile is_space s = []"
    have "trim s = rev (dropWhile is_space (rev []))" unfolding trim_def a ..
    then have "trim s = []" by simp
    with n show False by simp
  qed
  have "hd (trim s) = hd (dropWhile is_space s)"
    using n unfolding trim_def by (rule rstrip_hd)
  then show ?thesis using hd_dropWhile [OF d] by simp
qed

lemma trim_last: "trim s \<noteq> [] \<Longrightarrow> \<not> is_space (last (trim s))"
  using rstrip_last [of is_space "dropWhile is_space s"] by (auto simp: trim_def)

lemma trim_fixed:
  "x \<noteq> [] \<Longrightarrow> \<not> is_space (hd x) \<Longrightarrow> \<not> is_space (last x) \<Longrightarrow> trim x = x"
proof -
  assume x: "x \<noteq> []" and h: "\<not> is_space (hd x)" and l: "\<not> is_space (last x)"
  have d: "dropWhile is_space x = x" using x h by (cases x) auto
  show ?thesis unfolding trim_def d using l by (intro rstrip_fixed) simp
qed

lemma trim_Nil [simp]: "trim [] = []"
  by (simp add: trim_def)

lemma strip_Nil [simp]: "strip_trailing_slashes [] = []"
  by (simp add: strip_trailing_slashes_def)

lemma clean_Nil [simp]: "clean [] = []"
  by (simp add: clean_def)

lemma strip_last:
  "strip_trailing_slashes s \<noteq> [] \<Longrightarrow> last (strip_trailing_slashes s) \<noteq> CHR ''/''"
  using rstrip_last [of "\<lambda>c. c = CHR ''/''" s] by (auto simp: strip_trailing_slashes_def)

lemma strip_fixed:
  "s = [] \<or> last s \<noteq> CHR ''/'' \<Longrightarrow> strip_trailing_slashes s = s"
  unfolding strip_trailing_slashes_def by (rule rstrip_fixed)

lemma clean_last: "clean s \<noteq> [] \<Longrightarrow> last (clean s) \<noteq> CHR ''/''"
  unfolding clean_def by (rule strip_last)

lemma clean_fixed:
  "x \<noteq> [] \<Longrightarrow> \<not> is_space (hd x) \<Longrightarrow> \<not> is_space (last x) \<Longrightarrow> last x \<noteq> CHR ''/'' \<Longrightarrow> clean x = x"
  by (simp add: clean_def trim_fixed strip_fixed)

lemma upgraded_Nil: "upgraded [] = []"
  by code_simp

lemma normalizeUrl_upgraded: "normalizeUrl s = upgraded (clean s)"
  by (cases "s = []") (simp_all add: normalizeUrl_def upgraded_def clean_def Let_def upgraded_Nil [unfolded upgraded_def])


section \<open>The URL normaliser: what a match looks like\<close>

lemma in_rmatch_Sym: "s' \<in> set (rmatch (Sym p) s) \<longleftrightarrow> (\<exists>c. s = c # s' \<and> p c)"
  by (cases s) auto

lemma in_rmatch_Seq:
  "s' \<in> set (rmatch (Seq a b) s) \<longleftrightarrow> (\<exists>m\<in>set (rmatch a s). s' \<in> set (rmatch b m))"
  by auto

lemma in_rmatch_Alt:
  "s' \<in> set (rmatch (Alt a b) s) \<longleftrightarrow> s' \<in> set (rmatch a s) \<or> s' \<in> set (rmatch b s)"
  by auto

lemma in_rmatch_Opt:
  "s' \<in> set (rmatch (Opt a) s) \<longleftrightarrow> s' \<in> set (rmatch a s) \<or> s' = s"
  by (auto simp: Opt_def)

lemma in_rmatch_Lit: "s' \<in> set (rmatch (Lit l) s) \<longleftrightarrow> s = l @ s'"
  by (induction l arbitrary: s) (auto simp: in_rmatch_Sym)

lemma test_prefix_iff: "test_prefix r s \<longleftrightarrow> (\<exists>s'. s' \<in> set (rmatch r s))"
  by (cases "rmatch r s") (auto simp: test_prefix_def)

lemma reach_chars:
  assumes f: "\<And>s s'. s' \<in> set (f s) \<Longrightarrow> \<exists>p. s = p @ s' \<and> list_all Q p"
  shows "s' \<in> set (reach f n ss) \<Longrightarrow> \<exists>s\<in>set ss. \<exists>p. s = p @ s' \<and> list_all Q p"
proof (induction n arbitrary: ss s')
  case 0
  then show ?case by (auto intro!: bexI [of _ s'] exI [of _ "[]"])
next
  case (Suc n)
  from Suc.prems consider "s' \<in> set ss" | "s' \<in> set (reach f n (remdups (concat (map f ss))))"
    by auto
  then show ?case
  proof cases
    case 1
    then show ?thesis by (auto intro!: bexI [of _ s'] exI [of _ "[]"])
  next
    case 2
    from Suc.IH [OF 2] obtain m p where m: "m \<in> set (concat (map f ss))"
      and p: "m = p @ s'" "list_all Q p" by auto
    from m obtain s where s: "s \<in> set ss" "m \<in> set (f s)" by auto
    from f [OF s(2)] obtain q where q: "s = q @ m" "list_all Q q" by auto
    have "s = (q @ p) @ s'" "list_all Q (q @ p)" using p q by auto
    then show ?thesis using s(1) by blast
  qed
qed

lemma rmatch_chars:
  "syms_in Q r \<Longrightarrow> s' \<in> set (rmatch r s) \<Longrightarrow> \<exists>p. s = p @ s' \<and> list_all Q p"
proof (induction r arbitrary: s s')
  case (Sym p)
  then show ?case by (auto simp: in_rmatch_Sym intro: exI [of _ "[c]" for c])
next
  case Eps
  then show ?case by simp
next
  case (Seq a b)
  from Seq.prems obtain m where m: "m \<in> set (rmatch a s)" "s' \<in> set (rmatch b m)"
    by (auto simp: in_rmatch_Seq)
  from Seq.IH(1) [OF _ m(1)] Seq.prems obtain p where p: "s = p @ m" "list_all Q p" by auto
  from Seq.IH(2) [OF _ m(2)] Seq.prems obtain q where q: "m = q @ s'" "list_all Q q" by auto
  have "s = (p @ q) @ s'" "list_all Q (p @ q)" using p q by auto
  then show ?case by blast
next
  case (Alt a b)
  then show ?case by (auto simp: in_rmatch_Alt)
next
  case (Star a)
  have "\<And>t t'. t' \<in> set (rmatch a t) \<Longrightarrow> \<exists>p. t = p @ t' \<and> list_all Q p"
    using Star.IH Star.prems(1) by simp
  from reach_chars [of "rmatch a" Q, OF this] Star.prems(2) show ?case by fastforce
next
  case (Upto n a)
  have "\<And>t t'. t' \<in> set (rmatch a t) \<Longrightarrow> \<exists>p. t = p @ t' \<and> list_all Q p"
    using Upto.IH Upto.prems(1) by simp
  from reach_chars [of "rmatch a" Q, OF this] Upto.prems(2) show ?case by fastforce
qed

lemma bex_rmatch_Sym:
  "(\<exists>m\<in>set (rmatch (Sym p) s). P m) \<longleftrightarrow> (\<exists>c cs. s = c # cs \<and> p c \<and> P cs)"
  by (cases s) auto

lemma bex_rmatch_Seq:
  "(\<exists>m\<in>set (rmatch (Seq a b) s). P m) \<longleftrightarrow> (\<exists>m\<in>set (rmatch a s). \<exists>m'\<in>set (rmatch b m). P m')"
  by auto

lemma bex_rmatch_Opt:
  "(\<exists>m\<in>set (rmatch (Opt a) s). P m) \<longleftrightarrow> (\<exists>m\<in>set (rmatch a s). P m) \<or> P s"
  by (auto simp: Opt_def)

lemma bex_rmatch_Alt:
  "(\<exists>m\<in>set (rmatch (Alt a b) s). P m) \<longleftrightarrow>
   (\<exists>m\<in>set (rmatch a s). P m) \<or> (\<exists>m\<in>set (rmatch b s). P m)"
  by auto

lemma bex_rmatch_Lit:
  "(\<exists>m\<in>set (rmatch (Lit l) s). P m) \<longleftrightarrow> (\<exists>m. s = l @ m \<and> P m)"
  by (auto simp: in_rmatch_Lit)

lemma test_prefix_bex: "test_prefix r s \<longleftrightarrow> (\<exists>m\<in>set (rmatch r s). True)"
  by (cases "rmatch r s") (auto simp: test_prefix_def)

lemma test_full_bex: "test_full r s \<longleftrightarrow> (\<exists>m\<in>set (rmatch r s). m = [])"
  by (auto simp: test_full_def)

lemmas bex_rmatch = bex_rmatch_Sym bex_rmatch_Seq bex_rmatch_Opt bex_rmatch_Alt bex_rmatch_Lit

lemma protocol_shape:
  "test_prefix protocolPattern u \<longleftrightarrow>
   (\<exists>a b c d t. ci CHR ''h'' CHR ''H'' a \<and> ci CHR ''t'' CHR ''T'' b \<and> ci CHR ''t'' CHR ''T'' c \<and>
     ci CHR ''p'' CHR ''P'' d \<and>
     (u = a # b # c # d # ''://'' @ t \<or> (\<exists>e. ci CHR ''s'' CHR ''S'' e \<and> u = a # b # c # d # e # ''://'' @ t)))"
  unfolding test_prefix_bex protocolPattern_def http_letters_def
  by (simp only: bex_rmatch) auto

lemma http_shape:
  "test_prefix httpPattern u \<longleftrightarrow>
   (\<exists>a b c d t. ci CHR ''h'' CHR ''H'' a \<and> ci CHR ''t'' CHR ''T'' b \<and> ci CHR ''t'' CHR ''T'' c \<and>
     ci CHR ''p'' CHR ''P'' d \<and> u = a # b # c # d # ''://'' @ t)"
  unfolding test_prefix_bex httpPattern_def http_letters_def
  by (simp only: bex_rmatch) auto

lemma protocol_https: "test_prefix protocolPattern (''https://'' @ x)"
  by (simp add: protocol_shape ci_def)

lemma not_http_https: "\<not> test_prefix httpPattern (''https://'' @ x)"
  by (auto simp: http_shape)


section \<open>The URL normaliser: a second pass\<close>

lemma https_fixed:
  assumes "x \<noteq> []" "\<not> is_space (last x)" "last x \<noteq> CHR ''/''"
  shows "upgraded (clean (''https://'' @ x)) = ''https://'' @ x"
proof -
  have "clean (''https://'' @ x) = ''https://'' @ x"
    using assms by (intro clean_fixed) (simp_all add: is_space_def)
  then show ?thesis
    by (simp only: upgraded_def protocol_https not_http_https if_True if_False)
qed

lemma upgraded_idem:
  assumes t: "trim u = u" and c: "u = [] \<or> last u \<noteq> CHR ''/''"
  shows "upgraded (clean (upgraded u)) = upgraded u"
proof (cases "u = []")
  case True
  then show ?thesis by (simp add: upgraded_Nil)
next
  case False
  have hd: "\<not> is_space (hd u)" using trim_hd [of u] t False by simp
  have la: "\<not> is_space (last u)" using trim_last [of u] t False by simp
  have sl: "last u \<noteq> CHR ''/''" using c False by simp
  have cu: "clean u = u" using False hd la sl by (rule clean_fixed)
  show ?thesis
  proof (cases "test_prefix protocolPattern u")
    case True
    show ?thesis
    proof (cases "test_prefix httpPattern u")
      case http: True
      then obtain a b c d x where u: "u = a # b # c # d # ''://'' @ x"
        by (auto simp: http_shape)
      have x: "x \<noteq> []" using sl u by auto
      have r: "upgraded u = ''https://'' @ x"
        using True http u by (simp add: upgraded_def)
      have "last x = last u" using u x by simp
      then show ?thesis unfolding r using https_fixed [OF x] la sl by simp
    next
      case False
      then have "upgraded u = u" using True by (simp add: upgraded_def)
      then show ?thesis using cu by simp
    qed
  next
    case np: False
    show ?thesis
    proof (cases "startsWith u ''//''")
      case True
      then obtain x where u: "u = ''//'' @ x"
        by (metis append_take_drop_id length_Cons list.size(3) startsWith_def One_nat_def)
      have x: "x \<noteq> []" using sl u by auto
      have r: "upgraded u = ''https://'' @ x"
        using np True u by (simp add: upgraded_def)
      have "last x = last u" using u x by simp
      then show ?thesis unfolding r using https_fixed [OF x] la sl by simp
    next
      case ns: False
      show ?thesis
      proof (cases "looks_like_domain u")
        case True
        have r: "upgraded u = ''https://'' @ u"
          using np ns True by (simp add: upgraded_def)
        show ?thesis unfolding r using https_fixed [OF False la sl] .
      next
        case False
        then have "upgraded u = u" using np ns by (simp add: upgraded_def)
        then show ?thesis using cu by simp
      qed
    qed
  qed
qed

text \<open>
  C10, amended. Let \<open>clean s\<close> be the input with the surrounding white space trimmed
  and then the trailing slashes removed. When \<open>clean s\<close> does not end in white space
  (trimming it changes nothing), normalising twice gives what normalising once gives.
\<close>

theorem normalizeUrl_idempotent_on_trimmed:
  assumes "trim (clean s) = clean s"
  shows "normalizeUrl (normalizeUrl s) = normalizeUrl s"
proof -
  have "clean s = [] \<or> last (clean s) \<noteq> CHR ''/''"
    using clean_last [of s] by blast
  with assms have "upgraded (clean (upgraded (clean s))) = upgraded (clean s)"
    by (rule upgraded_idem)
  then show ?thesis by (simp add: normalizeUrl_upgraded)
qed

text \<open>An address with an upper-case scheme, trailing slashes and surrounding blanks.\<close>

theorem normalizeUrl_idempotent_on_trimmed_witness:
  "normalizeUrl ''  HTTP://Example.com/path//  '' = ''https://Example.com/path''
 \<and> normalizeUrl (normalizeUrl ''  HTTP://Example.com/path//  '') = ''https://Example.com/path''"
proof -
  have h: "trim (clean ''  HTTP://Example.com/path//  '') = clean ''  HTTP://Example.com/path//  ''"
    by code_simp
  have v: "normalizeUrl ''  HTTP://Example.com/path//  '' = ''https://Example.com/path''"
    by code_simp
  show ?thesis
    using normalizeUrl_idempotent_on_trimmed [OF h] v by simp
qed

text \<open>
  The claim C10 as stated fails: white space in front of the trailing slashes survives
  the first pass, which trims before it removes the slashes, and the second pass trims it.
  On the submit path the first pass is that of the Hero component, and the second pass
  changes what it returns for an \<^verbatim>\<open>http\<close> address or a trailing slash.
\<close>

theorem second_pass_changes_counterexample:
  "normalizeUrl ''example.com /'' = ''example.com ''
 \<and> normalizeUrl (normalizeUrl ''example.com /'') = ''https://example.com''
 \<and> normalizeUrl ''https://a.com /'' = ''https://a.com ''
 \<and> normalizeUrl (normalizeUrl ''https://a.com /'') = ''https://a.com''
 \<and> hero_normalizeUrl ''http://example.com/'' = ''http://example.com/''
 \<and> normalizeUrl (hero_normalizeUrl ''http://example.com/'') = ''https://example.com''"
  by code_simp


section \<open>The URL normaliser: domains and protocols exclude each other\<close>

lemma test_full_prefix: "test_full r s \<Longrightarrow> test_prefix r s"
  by (auto simp: test_full_def test_prefix_def)

lemma test_prefix_Seq: "test_prefix (Seq a b) s \<Longrightarrow> test_prefix a s"
  by (auto simp: test_prefix_bex)

lemma test_prefix_Alt: "test_prefix (Alt a b) s \<Longrightarrow> test_prefix a s \<or> test_prefix b s"
  by (auto simp: test_prefix_bex)

lemma test_prefix_Sym: "test_prefix (Sym p) s \<Longrightarrow> s \<noteq> [] \<and> p (hd s)"
  by (cases s) (auto simp: test_prefix_def split: if_splits)

lemma test_prefix_Lit: "test_prefix (Lit (c # cs)) s \<Longrightarrow> s \<noteq> [] \<and> hd s = c"
  using test_prefix_Sym [of "\<lambda>x. x = c" s] test_prefix_Seq [of "Sym (\<lambda>x. x = c)" "Lit cs" s]
  by simp

lemma label_first: "test_prefix label s \<Longrightarrow> s \<noteq> [] \<and> alnum (hd s)"
  unfolding label_def by (blast dest: test_prefix_Seq test_prefix_Sym)

lemma domain_first: "test_full domainPattern s \<Longrightarrow> s \<noteq> [] \<and> alnum (hd s)"
  unfolding domainPattern_def Plus_def
  by (blast dest: test_full_prefix test_prefix_Seq label_first)

lemma simple_first: "test_full simpleDomainPattern s \<Longrightarrow> s \<noteq> [] \<and> alnum (hd s)"
  unfolding simpleDomainPattern_def
  by (blast dest: test_full_prefix test_prefix_Seq test_prefix_Sym)

lemma localhost_first:
  "test_full localhostPattern s \<Longrightarrow> s \<noteq> [] \<and> hd s \<in> {CHR ''l'', CHR ''1'', CHR ''0''}"
proof -
  assume "test_full localhostPattern s"
  then have "test_prefix (Alt (Lit ''localhost'') (Alt (Lit ''127.0.0.1'') (Lit ''0.0.0.0''))) s"
    unfolding localhostPattern_def by (blast dest: test_full_prefix test_prefix_Seq)
  then consider "test_prefix (Lit ''localhost'') s" | "test_prefix (Lit ''127.0.0.1'') s"
    | "test_prefix (Lit ''0.0.0.0'') s"
    by (blast dest: test_prefix_Alt)
  then show ?thesis
    by cases (blast dest: test_prefix_Lit)+
qed

lemma ip_first: "test_full ipPattern s \<Longrightarrow> s \<noteq> [] \<and> digit (hd s)"
  unfolding ipPattern_def octet_def
  by (blast dest: test_full_prefix test_prefix_Seq test_prefix_Sym)

lemma looks_like_domain_first: "looks_like_domain s \<Longrightarrow> s \<noteq> [] \<and> alnum (hd s)"
proof -
  assume "looks_like_domain s"
  then consider "test_full domainPattern s" | "test_full simpleDomainPattern s"
    | "test_full localhostPattern s" | "test_full ipPattern s"
    by (auto simp: looks_like_domain_def)
  then show ?thesis
  proof cases
    case 1 then show ?thesis by (rule domain_first)
  next
    case 2 then show ?thesis by (rule simple_first)
  next
    case 3
    from localhost_first [OF this] show ?thesis
      by (auto simp: alnum_def alpha_def digit_def)
  next
    case 4
    from ip_first [OF this] show ?thesis by (simp add: alnum_def)
  qed
qed

lemma protocol_first:
  "test_prefix protocolPattern s \<Longrightarrow> s \<noteq> [] \<and> hd s \<in> {CHR ''h'', CHR ''H''}"
  by (auto simp: protocol_shape ci_def)

lemma ci_hostchar:
  "ci CHR ''h'' CHR ''H'' c \<or> ci CHR ''t'' CHR ''T'' c \<or> ci CHR ''p'' CHR ''P'' c \<or>
   ci CHR ''s'' CHR ''S'' c \<Longrightarrow> hostchar c"
  by (auto simp: ci_def hostchar_def alnum_dash_def alnum_def alpha_def)

lemma protocol_tail:
  "test_prefix protocolPattern s \<Longrightarrow>
   dropWhile hostchar s \<noteq> [] \<and> hd (dropWhile hostchar s) = CHR '':''"
proof -
  have n: "\<not> hostchar CHR '':''"
    by (simp add: hostchar_def alnum_dash_def alnum_def alpha_def digit_def)
  assume "test_prefix protocolPattern s"
  then obtain a b c d t where l: "hostchar a" "hostchar b" "hostchar c" "hostchar d"
    and s: "s = a # b # c # d # ''://'' @ t \<or> (\<exists>e. hostchar e \<and> s = a # b # c # d # e # ''://'' @ t)"
    unfolding protocol_shape using ci_hostchar by blast
  from s show ?thesis using l n by auto
qed

lemma not_hostchar_slash: "\<not> hostchar CHR ''/''"
  by (simp add: hostchar_def alnum_dash_def alnum_def alpha_def digit_def)

lemma pathPart_end: "[] \<in> set (rmatch pathPart m) \<Longrightarrow> host_then_path m"
  unfolding pathPart_def host_then_path_def
  using not_hostchar_slash
  by (auto simp: in_rmatch_Opt in_rmatch_Seq in_rmatch_Lit simp del: rmatch.simps Lit.simps)

lemma tail_Seq:
  assumes b: "\<And>m. [] \<in> set (rmatch b m) \<Longrightarrow> host_then_path m"
    and a: "syms_in hostchar a"
    and s: "[] \<in> set (rmatch (Seq a b) s)"
  shows "host_then_path s"
proof -
  from s obtain m where m: "m \<in> set (rmatch a s)" "[] \<in> set (rmatch b m)"
    by (auto simp: in_rmatch_Seq simp del: rmatch.simps)
  from rmatch_chars [OF a m(1)] obtain p where p: "s = p @ m" "list_all hostchar p" by auto
  have "dropWhile hostchar s = dropWhile hostchar m"
    using p by (simp add: dropWhile_append2 list_all_iff)
  then show ?thesis using b [OF m(2)] by (simp add: host_then_path_def)
qed

lemma syms_tld: "syms_in hostchar tld"
  by (simp add: tld_def hostchar_def alnum_dash_def alnum_def)

lemma syms_label: "syms_in hostchar label"
  by (simp add: label_def Opt_def hostchar_def alnum_dash_def)

lemma domain_tail: "test_full domainPattern s \<Longrightarrow> host_then_path s"
  unfolding test_full_def domainPattern_def
proof (erule tail_Seq [rotated 2])
  show "\<And>m. [] \<in> set (rmatch (Seq tld pathPart) m) \<Longrightarrow> host_then_path m"
    by (erule tail_Seq [rotated 2]) (simp_all add: pathPart_end syms_tld)
  show "syms_in hostchar (Plus (Seq label (Lit ''.'')))"
    using syms_label by (simp add: Plus_def hostchar_def)
qed

lemma simple_tail: "test_full simpleDomainPattern s \<Longrightarrow> host_then_path s"
  unfolding test_full_def simpleDomainPattern_def
proof (erule tail_Seq [rotated 2])
  have 1: "\<And>m. [] \<in> set (rmatch (Seq tld pathPart) m) \<Longrightarrow> host_then_path m"
    by (erule tail_Seq [rotated 2]) (simp_all add: pathPart_end syms_tld)
  have 2: "\<And>m. [] \<in> set (rmatch (Seq (Lit ''.'') (Seq tld pathPart)) m) \<Longrightarrow> host_then_path m"
    by (erule tail_Seq [rotated 2]) (simp_all add: 1 hostchar_def)
  have 3: "\<And>m. [] \<in> set (rmatch (Seq (Star (Sym alnum)) (Seq (Lit ''.'') (Seq tld pathPart))) m)
             \<Longrightarrow> host_then_path m"
    by (erule tail_Seq [rotated 2]) (simp_all add: 2 hostchar_def alnum_dash_def)
  show "\<And>m. [] \<in> set (rmatch (Seq (Star (Sym alnum_dash))
                 (Seq (Star (Sym alnum)) (Seq (Lit ''.'') (Seq tld pathPart)))) m)
          \<Longrightarrow> host_then_path m"
    by (erule tail_Seq [rotated 2]) (simp_all add: 3 hostchar_def)
  show "syms_in hostchar (Sym alnum)"
    by (simp add: hostchar_def alnum_dash_def)
qed

lemma looks_like_domain_no_protocol:
  assumes "looks_like_domain s"
  shows "\<not> test_prefix protocolPattern s"
proof
  assume pr: "test_prefix protocolPattern s"
  from assms consider "test_full domainPattern s" | "test_full simpleDomainPattern s"
    | "test_full localhostPattern s" | "test_full ipPattern s"
    by (auto simp: looks_like_domain_def)
  then show False
  proof cases
    case 1
    from domain_tail [OF this] protocol_tail [OF pr] show False
      by (auto simp: host_then_path_def)
  next
    case 2
    from simple_tail [OF this] protocol_tail [OF pr] show False
      by (auto simp: host_then_path_def)
  next
    case 3
    from localhost_first [OF this] protocol_first [OF pr] show False by auto
  next
    case 4
    from ip_first [OF this] protocol_first [OF pr] show False by (auto simp: digit_def)
  qed
qed


section \<open>The URL normaliser: the upgrade to a secure address\<close>

lemma startsWith_slash: "startsWith u ''/'' \<longleftrightarrow> u \<noteq> [] \<and> hd u = CHR ''/''"
  by (cases u) (auto simp: startsWith_def)

lemma startsWith_slashes: "startsWith u ''//'' \<longleftrightarrow> (\<exists>x. u = ''//'' @ x)"
proof
  assume "startsWith u ''//''"
  then have "u = ''//'' @ drop 2 u"
    by (metis append_take_drop_id length_Cons list.size(3) startsWith_def One_nat_def Suc_1)
  then show "\<exists>x. u = ''//'' @ x" ..
next
  assume "\<exists>x. u = ''//'' @ x"
  then show "startsWith u ''//''" by (auto simp: startsWith_def)
qed

lemma not_alnum_slash: "\<not> alnum CHR ''/''"
  by (simp add: alnum_def alpha_def digit_def)

lemma slash_no_protocol: "startsWith u ''/'' \<Longrightarrow> \<not> test_prefix protocolPattern u"
  using protocol_first [of u] by (auto simp: startsWith_slash)

lemma slash_no_domain: "startsWith u ''/'' \<Longrightarrow> \<not> looks_like_domain u"
  using looks_like_domain_first [of u] not_alnum_slash by (auto simp: startsWith_slash)

lemma slashes_slash: "startsWith u ''//'' \<Longrightarrow> startsWith u ''/''"
  by (auto simp: startsWith_slashes startsWith_slash)

lemma upgraded_slashes: "startsWith u ''//'' \<Longrightarrow> upgraded u = ''https:'' @ u"
  using slash_no_protocol [OF slashes_slash] by (simp add: upgraded_def)

lemma upgraded_domain: "looks_like_domain u \<Longrightarrow> upgraded u = ''https://'' @ u"
  using looks_like_domain_no_protocol [of u] slash_no_domain [OF slashes_slash, of u]
  by (auto simp: upgraded_def)

text \<open>The Hero normaliser without its two patterns: they do not change the result.\<close>

lemma hero_branches:
  assumes "trim s \<noteq> []"
  shows "hero_normalizeUrl s =
           (if test_prefix protocolPattern (trim s) then trim s
            else if startsWith (trim s) ''//'' then ''https:'' @ trim s
            else if startsWith (trim s) ''/'' then trim s
            else ''https://'' @ trim s)"
proof -
  have s: "s \<noteq> []" using assms by auto
  have 1: "startsWith (trim s) ''/'' \<Longrightarrow> \<not> test_prefix heroDomainPattern (trim s)"
    unfolding heroDomainPattern_def
    using not_alnum_slash by (auto simp: startsWith_slash dest!: test_prefix_Seq label_first)
  have 2: "startsWith (trim s) ''/'' \<Longrightarrow> \<not> test_full label (trim s)"
    using not_alnum_slash by (auto simp: startsWith_slash dest!: test_full_prefix label_first)
  show ?thesis
    using assms s 1 2 by (auto simp: hero_normalizeUrl_def Let_def)
qed

lemma hero_slashes: "startsWith (trim s) ''//'' \<Longrightarrow> hero_normalizeUrl s = ''https:'' @ trim s"
proof -
  assume a: "startsWith (trim s) ''//''"
  then have n: "trim s \<noteq> []" by (auto simp: startsWith_slashes)
  show ?thesis
    using a slash_no_protocol [OF slashes_slash [OF a]] by (simp add: hero_branches [OF n])
qed

lemma hero_domain: "looks_like_domain (trim s) \<Longrightarrow> hero_normalizeUrl s = ''https://'' @ trim s"
proof -
  assume a: "looks_like_domain (trim s)"
  then have n: "trim s \<noteq> []" using looks_like_domain_first by blast
  have "\<not> startsWith (trim s) ''/''" using a slash_no_domain by blast
  then show ?thesis
    using looks_like_domain_no_protocol [OF a] slashes_slash [of "trim s"]
    by (auto simp: hero_branches [OF n])
qed

text \<open>The submit path on the inputs that are upgraded.\<close>

lemma trim_idem: "trim (trim s) = trim s"
proof (cases "trim s = []")
  case True
  then show ?thesis by simp
next
  case False
  then show ?thesis using trim_hd [OF False] trim_last [OF False] by (intro trim_fixed)
qed

lemma strip_append:
  assumes "strip_trailing_slashes t \<noteq> []"
  shows "strip_trailing_slashes (a @ t) = a @ strip_trailing_slashes t"
proof -
  let ?Q = "\<lambda>c. c = CHR ''/''"
  from assms have "dropWhile ?Q (rev t) \<noteq> []"
    by (simp add: strip_trailing_slashes_def)
  then obtain x where x: "x \<in> set (rev t)" "\<not> ?Q x"
    by (metis (mono_tags, lifting) dropWhile_eq_Nil_conv)
  have "dropWhile ?Q (rev t @ rev a) = dropWhile ?Q (rev t) @ rev a"
    using x by (rule dropWhile_append1)
  then show ?thesis by (simp add: strip_trailing_slashes_def)
qed

lemma strip_nonempty:
  "t \<noteq> [] \<Longrightarrow> hd t \<noteq> CHR ''/'' \<Longrightarrow> strip_trailing_slashes t \<noteq> []"
  by (cases t) (auto simp: strip_trailing_slashes_def dropWhile_append)

lemma clean_https:
  assumes t: "trim t = t" and n: "strip_trailing_slashes t \<noteq> []"
    and p: "p \<noteq> []" "\<not> is_space (hd p)"
  shows "clean (p @ t) = p @ strip_trailing_slashes t"
proof -
  have tn: "t \<noteq> []" using n by auto
  have "\<not> is_space (last t)" using trim_last [of t] t tn by simp
  then have "trim (p @ t) = p @ t"
    using p tn by (intro trim_fixed) simp_all
  then show ?thesis using strip_append [OF n] by (simp add: clean_def)
qed

lemma submitted_slashes:
  assumes "startsWith (clean s) ''//''"
  shows "submitted_url s = Some (''https:'' @ clean s)"
proof -
  let ?t = "trim s"
  from assms obtain x where x: "clean s = ''//'' @ x" by (auto simp: startsWith_slashes)
  have n: "strip_trailing_slashes ?t \<noteq> []" using x by (simp add: clean_def)
  then have tn: "?t \<noteq> []" by auto
  have "prefix (clean s) ?t"
    unfolding clean_def strip_trailing_slashes_def by (rule rstrip_prefix)
  then have st: "startsWith ?t ''//''"
    using x by (auto simp: startsWith_slashes prefix_def)
  have h: "hero_normalizeUrl ?t = ''https:'' @ ?t"
    using st hero_slashes [of ?t] by (simp add: trim_idem)
  have "clean (''https:'' @ ?t) = ''https:'' @ strip_trailing_slashes ?t"
    using n by (intro clean_https) (simp_all add: trim_idem is_space_def)
  then have "clean (''https:'' @ ?t) = ''https://'' @ x"
    using x by (simp add: clean_def)
  then have "normalizeUrl (''https:'' @ ?t) = ''https://'' @ x"
    by (simp only: normalizeUrl_upgraded upgraded_def protocol_https not_http_https if_True if_False)
  then show ?thesis using tn h x by (simp add: submitted_url_def)
qed

lemma submitted_domain:
  assumes "looks_like_domain (trim s)"
  shows "submitted_url s = Some (''https://'' @ clean s)"
proof -
  let ?t = "trim s"
  from looks_like_domain_first [OF assms] have tn: "?t \<noteq> []" and a: "alnum (hd ?t)" by auto
  have "hd ?t \<noteq> CHR ''/''" using a not_alnum_slash by auto
  then have n: "strip_trailing_slashes ?t \<noteq> []" using tn by (intro strip_nonempty)
  have h: "hero_normalizeUrl ?t = ''https://'' @ ?t"
    using assms hero_domain [of ?t] by (simp add: trim_idem)
  have "clean (''https://'' @ ?t) = ''https://'' @ strip_trailing_slashes ?t"
    using n by (intro clean_https) (simp_all add: trim_idem is_space_def)
  then have "normalizeUrl (''https://'' @ ?t) = ''https://'' @ clean s"
    by (simp only: normalizeUrl_upgraded upgraded_def protocol_https not_http_https if_True if_False
        clean_def)
  then show ?thesis using tn h by (simp add: submitted_url_def)
qed

lemma submitted_default:
  assumes n: "trim s \<noteq> []" and ns: "\<not> startsWith (trim s) ''/''"
    and np: "\<not> test_prefix protocolPattern (trim s)"
  shows "submitted_url s = Some (''https://'' @ clean s)"
proof -
  let ?t = "trim s"
  have "hd ?t \<noteq> CHR ''/''" using n ns by (simp add: startsWith_slash)
  then have st: "strip_trailing_slashes ?t \<noteq> []" using n by (intro strip_nonempty)
  have n2: "trim ?t \<noteq> []" using n by (simp add: trim_idem)
  have "\<not> startsWith ?t ''//''" using ns slashes_slash by blast
  then have h: "hero_normalizeUrl ?t = ''https://'' @ ?t"
    using ns np by (simp add: hero_branches [OF n2] trim_idem)
  have "clean (''https://'' @ ?t) = ''https://'' @ strip_trailing_slashes ?t"
    using st by (intro clean_https) (simp_all add: trim_idem is_space_def)
  then have "normalizeUrl (''https://'' @ ?t) = ''https://'' @ clean s"
    by (simp only: normalizeUrl_upgraded upgraded_def protocol_https not_http_https if_True if_False
        clean_def)
  then show ?thesis using n h by (simp add: submitted_url_def)
qed

text \<open>
  C8, amended. Let \<open>clean s\<close> be the input trimmed and without its trailing slashes.
  If \<open>clean s\<close> starts with two slashes, \<^verbatim>\<open>normalizeUrl\<close> returns \<^verbatim>\<open>https:\<close> followed
  by \<open>clean s\<close>; if \<open>clean s\<close> matches one of the four domain patterns, it returns
  \<^verbatim>\<open>https://\<close> followed by \<open>clean s\<close>. The normaliser of the Hero component does the
  same with the trimmed input, and the address posted on the submit path, where both
  normalisers run, is again \<^verbatim>\<open>https:\<close> or \<^verbatim>\<open>https://\<close> followed by \<open>clean s\<close>. On
  the submit path that holds for every input that is not blank and starts neither with a
  slash nor with a protocol, matched by a pattern or not. In all these cases the result
  begins with \<^verbatim>\<open>https://\<close>.
\<close>

theorem upgrade_to_https:
  "(startsWith (clean s) ''//'' \<longrightarrow> normalizeUrl s = ''https:'' @ clean s)
 \<and> (looks_like_domain (clean s) \<longrightarrow> normalizeUrl s = ''https://'' @ clean s)
 \<and> (startsWith (trim s) ''//'' \<longrightarrow> hero_normalizeUrl s = ''https:'' @ trim s)
 \<and> (looks_like_domain (trim s) \<longrightarrow> hero_normalizeUrl s = ''https://'' @ trim s)
 \<and> (startsWith (clean s) ''//'' \<longrightarrow> submitted_url s = Some (''https:'' @ clean s))
 \<and> (looks_like_domain (trim s) \<longrightarrow> submitted_url s = Some (''https://'' @ clean s))
 \<and> (trim s \<noteq> [] \<and> \<not> startsWith (trim s) ''/'' \<and> \<not> test_prefix protocolPattern (trim s)
      \<longrightarrow> submitted_url s = Some (''https://'' @ clean s))"
  by (simp add: normalizeUrl_upgraded upgraded_slashes upgraded_domain hero_slashes hero_domain
      submitted_slashes submitted_domain submitted_default)

text \<open>A bare domain with a path and a protocol-relative address, in both normalisers.\<close>

theorem upgrade_to_https_witness:
  "normalizeUrl ''example.com/path'' = ''https://example.com/path''
 \<and> normalizeUrl '' //cdn.example.com/lib.js/ '' = ''https://cdn.example.com/lib.js''
 \<and> hero_normalizeUrl ''//cdn.example.com/lib.js'' = ''https://cdn.example.com/lib.js''
 \<and> hero_normalizeUrl ''example.com'' = ''https://example.com''
 \<and> submitted_url '' example.com/path/ '' = Some ''https://example.com/path''
 \<and> submitted_url ''example.com:8080'' = Some ''https://example.com:8080''"
proof -
  have 1: "looks_like_domain (clean ''example.com/path'')" by code_simp
  have 2: "startsWith (clean '' //cdn.example.com/lib.js/ '') ''//''" by code_simp
  have 3: "startsWith (trim ''//cdn.example.com/lib.js'') ''//''" by code_simp
  have 4: "looks_like_domain (trim ''example.com'')" by code_simp
  have c1: "clean ''example.com/path'' = ''example.com/path''" by code_simp
  have c2: "clean '' //cdn.example.com/lib.js/ '' = ''//cdn.example.com/lib.js''" by code_simp
  have c3: "trim ''//cdn.example.com/lib.js'' = ''//cdn.example.com/lib.js''" by code_simp
  have c4: "trim ''example.com'' = ''example.com''" by code_simp
  have 5: "looks_like_domain (trim '' example.com/path/ '')" by code_simp
  have c5: "clean '' example.com/path/ '' = ''example.com/path''" by code_simp
  have 6: "trim ''example.com:8080'' \<noteq> [] \<and> \<not> startsWith (trim ''example.com:8080'') ''/''
           \<and> \<not> test_prefix protocolPattern (trim ''example.com:8080'')" by code_simp
  have c6: "clean ''example.com:8080'' = ''example.com:8080''" by code_simp
  show ?thesis
    using upgrade_to_https [of "''example.com/path''"] upgrade_to_https [of "'' //cdn.example.com/lib.js/ ''"]
      upgrade_to_https [of "''//cdn.example.com/lib.js''"] upgrade_to_https [of "''example.com''"]
      upgrade_to_https [of "'' example.com/path/ ''"] upgrade_to_https [of "''example.com:8080''"]
      1 2 3 4 5 6 c1 c2 c3 c4 c5 c6
    by simp
qed

text \<open>
  The claim C8 as stated fails on the input of two slashes: it starts with \<^verbatim>\<open>//\<close>, the
  slashes are removed as trailing ones, and the result is the empty string; on the submit
  path, where the Hero normaliser runs first, the result is \<^verbatim>\<open>https:\<close>. A domain
  with a port matches none of the domain patterns, and \<^verbatim>\<open>normalizeUrl\<close> alone returns
  it as it is.
\<close>

theorem only_slashes_counterexample:
  "normalizeUrl ''//'' = []
 \<and> \<not> startsWith (normalizeUrl ''//'') ''https://''
 \<and> submitted_url ''//'' = Some ''https:''
 \<and> normalizeUrl ''example.com:8080'' = ''example.com:8080''"
  by code_simp

section \<open>The matcher computes the language of the pattern\<close>

text \<open>
  \<open>rmatch r s\<close> holds exactly the rests of \<open>s\<close> after a prefix in the language of
  \<open>r\<close>. So \<^verbatim>\<open>/^r$/.test(s)\<close> is membership of \<open>s\<close> in that language and
  \<^verbatim>\<open>/^r/.test(s)\<close> says that a prefix of \<open>s\<close> is in it; the bound on the iterations of
  a starred pattern, the length of the input, loses nothing.
\<close>

lemma pow_short: "p \<in> pow L k \<Longrightarrow> \<exists>j\<le>length p. p \<in> pow L j"
proof (induction k arbitrary: p)
  case 0
  then show ?case by auto
next
  case (Suc k)
  then obtain u v where p: "p = u @ v" "u \<in> L" "v \<in> pow L k" by auto
  from Suc.IH [OF p(3)] obtain j where j: "j \<le> length v" "v \<in> pow L j" by auto
  show ?case
  proof (cases "u = []")
    case True
    then show ?thesis using p j by auto
  next
    case False
    then have "Suc j \<le> length p" using p(1) j(1) by (cases u) auto
    moreover have "p \<in> pow L (Suc j)" using p j by auto
    ultimately show ?thesis by blast
  qed
qed

lemma pow_Suc_iff: "q \<in> pow L (Suc k) \<longleftrightarrow> (\<exists>u\<in>L. \<exists>p\<in>pow L k. q = u @ p)"
  by auto

lemma reach_step:
  "set (reach f (Suc n) ss) = set ss \<union> set (reach f n (remdups (concat (map f ss))))"
  by simp

lemma reach_pow:
  assumes f: "\<And>s s'. s' \<in> set (f s) \<longleftrightarrow> (\<exists>p\<in>L. s = p @ s')"
  shows "s' \<in> set (reach f n ss) \<longleftrightarrow> (\<exists>s\<in>set ss. \<exists>k\<le>n. \<exists>p\<in>pow L k. s = p @ s')"
proof (induction n arbitrary: ss s')
  case 0
  show ?case by simp
next
  case (Suc n)
  let ?X = "remdups (concat (map f ss))"
  show ?case
  proof
    assume "s' \<in> set (reach f (Suc n) ss)"
    then consider "s' \<in> set ss" | "s' \<in> set (reach f n ?X)"
      unfolding reach_step by blast
    then show "\<exists>s\<in>set ss. \<exists>k\<le>Suc n. \<exists>p\<in>pow L k. s = p @ s'"
    proof cases
      case 1
      have "[] \<in> pow L 0" "s' = [] @ s'" "0 \<le> Suc n" by simp_all
      with 1 show ?thesis by blast
    next
      case 2
      then obtain m k p where m: "m \<in> set ?X" and k: "k \<le> n" and p: "p \<in> pow L k" "m = p @ s'"
        unfolding Suc.IH by blast
      from m obtain s where s: "s \<in> set ss" "m \<in> set (f s)" by auto
      from s(2) obtain u where u: "u \<in> L" "s = u @ m" unfolding f by blast
      have "u @ p \<in> pow L (Suc k)" using u(1) p(1) unfolding pow_Suc_iff by blast
      moreover have "s = (u @ p) @ s'" using u(2) p(2) by simp
      moreover have "Suc k \<le> Suc n" using k by simp
      ultimately show ?thesis using s(1) by blast
    qed
  next
    assume "\<exists>s\<in>set ss. \<exists>k\<le>Suc n. \<exists>p\<in>pow L k. s = p @ s'"
    then obtain s k q where s: "s \<in> set ss" and k: "k \<le> Suc n" and q: "q \<in> pow L k" "s = q @ s'"
      by blast
    show "s' \<in> set (reach f (Suc n) ss)"
    proof (cases k)
      case 0
      then have "s = s'" using q by simp
      then show ?thesis using s unfolding reach_step by blast
    next
      case (Suc j)
      with q(1) have "q \<in> pow L (Suc j)" by simp
      then obtain u p where u: "u \<in> L" "p \<in> pow L j" "q = u @ p"
        unfolding pow_Suc_iff by blast
      have "p @ s' \<in> set (f s)" unfolding f using u(1,3) q(2) by simp
      then have "p @ s' \<in> set ?X" using s by auto
      moreover have "j \<le> n" using k Suc by simp
      ultimately have "s' \<in> set (reach f n ?X)"
        unfolding Suc.IH using u(2) by blast
      then show ?thesis unfolding reach_step by blast
    qed
  qed
qed

lemma lang_Seq_iff: "q \<in> lang (Seq a b) \<longleftrightarrow> (\<exists>u\<in>lang a. \<exists>v\<in>lang b. q = u @ v)"
  by auto

theorem rmatch_lang: "s' \<in> set (rmatch r s) \<longleftrightarrow> (\<exists>p\<in>lang r. s = p @ s')"
proof (induction r arbitrary: s s')
  case (Sym q)
  show ?case by (cases s) auto
next
  case Eps
  show ?case by auto
next
  case (Seq a b)
  show ?case
  proof
    assume "s' \<in> set (rmatch (Seq a b) s)"
    then obtain m where m: "m \<in> set (rmatch a s)" "s' \<in> set (rmatch b m)" by auto
    from m(1) obtain u where u: "u \<in> lang a" "s = u @ m" unfolding Seq.IH by blast
    from m(2) obtain v where v: "v \<in> lang b" "m = v @ s'" unfolding Seq.IH by blast
    have "u @ v \<in> lang (Seq a b)" using u(1) v(1) unfolding lang_Seq_iff by blast
    moreover have "s = (u @ v) @ s'" using u(2) v(2) by simp
    ultimately show "\<exists>p\<in>lang (Seq a b). s = p @ s'" by blast
  next
    assume "\<exists>p\<in>lang (Seq a b). s = p @ s'"
    then obtain q where q: "q \<in> lang (Seq a b)" "s = q @ s'" by blast
    from q(1) obtain u v where "u \<in> lang a" "v \<in> lang b" "q = u @ v"
      unfolding lang_Seq_iff by blast
    with q(2) have u: "u \<in> lang a" "v \<in> lang b" "s = (u @ v) @ s'" by simp_all
    have "v @ s' \<in> set (rmatch a s)" unfolding Seq.IH using u(1,3) by simp
    moreover have "s' \<in> set (rmatch b (v @ s'))" unfolding Seq.IH using u(2) by blast
    ultimately show "s' \<in> set (rmatch (Seq a b) s)" by auto
  qed
next
  case (Alt a b)
  show ?case using Alt.IH [of s' s] by auto
next
  case (Star a)
  have r: "s' \<in> set (rmatch (Star a) s) \<longleftrightarrow> (\<exists>k\<le>length s. \<exists>p\<in>pow (lang a) k. s = p @ s')"
    using reach_pow [of "rmatch a" "lang a" s' "length s" "[s]", OF Star.IH] by simp
  show ?case
  proof
    assume "s' \<in> set (rmatch (Star a) s)"
    then obtain k p where "p \<in> pow (lang a) k" "s = p @ s'" unfolding r by blast
    then show "\<exists>p\<in>lang (Star a). s = p @ s'" by auto
  next
    assume "\<exists>p\<in>lang (Star a). s = p @ s'"
    then obtain k p where p: "p \<in> pow (lang a) k" "s = p @ s'" by auto
    from pow_short [OF p(1)] obtain j where j: "j \<le> length p" "p \<in> pow (lang a) j" by blast
    have "j \<le> length s" using j(1) p(2) by simp
    then show "s' \<in> set (rmatch (Star a) s)" unfolding r using j(2) p(2) by blast
  qed
next
  case (Upto n a)
  have r: "s' \<in> set (rmatch (Upto n a) s) \<longleftrightarrow> (\<exists>k\<le>n. \<exists>p\<in>pow (lang a) k. s = p @ s')"
    using reach_pow [of "rmatch a" "lang a" s' n "[s]", OF Upto.IH] by simp
  show ?case unfolding r by auto
qed

lemma test_full_lang: "test_full r s \<longleftrightarrow> s \<in> lang r"
  by (simp add: test_full_def rmatch_lang)

lemma test_prefix_lang: "test_prefix r s \<longleftrightarrow> (\<exists>p\<in>lang r. prefix p s)"
  by (auto simp: test_prefix_iff rmatch_lang prefix_def)

section \<open>The two normalisers compared\<close>

lemma upgraded_last:
  assumes "u = [] \<or> last u \<noteq> CHR ''/''"
  shows "upgraded u = [] \<or> last (upgraded u) \<noteq> CHR ''/''"
proof (cases "u = []")
  case True
  then show ?thesis by (simp add: upgraded_Nil)
next
  case False
  then have sl: "last u \<noteq> CHR ''/''" using assms by simp
  show ?thesis
  proof (cases "test_prefix protocolPattern u \<and> test_prefix httpPattern u")
    case True
    then obtain a b c d x where u: "u = a # b # c # d # ''://'' @ x"
      by (auto simp: http_shape)
    have x: "x \<noteq> []" using sl u by auto
    have "upgraded u = ''https://'' @ x" using True u by (simp add: upgraded_def)
    then show ?thesis using x sl u by simp
  next
    case False
    then have "upgraded u = u \<or> upgraded u = ''https:'' @ u \<or> upgraded u = ''https://'' @ u"
      by (auto simp: upgraded_def)
    then show ?thesis using sl \<open>u \<noteq> []\<close> by auto
  qed
qed

lemma hero_last:
  assumes "trim s \<noteq> []"
  shows "hero_normalizeUrl s \<noteq> [] \<and> last (hero_normalizeUrl s) = last (trim s)"
  using assms by (simp add: hero_branches)

lemma normalizers_agree_if:
  assumes n: "trim s \<noteq> []" and c: "clean s = trim s"
    and k: "(test_prefix protocolPattern (trim s) \<and> \<not> test_prefix httpPattern (trim s))
            \<or> startsWith (trim s) ''/'' \<or> looks_like_domain (trim s)"
  shows "normalizeUrl s = hero_normalizeUrl s"
proof -
  let ?t = "trim s"
  from k consider (https) "test_prefix protocolPattern ?t" "\<not> test_prefix httpPattern ?t"
    | (slashes) "startsWith ?t ''//''"
    | (slash) "startsWith ?t ''/''" "\<not> startsWith ?t ''//''"
    | (dom) "looks_like_domain ?t"
    by blast
  then show ?thesis
  proof cases
    case https
    then show ?thesis by (simp add: normalizeUrl_upgraded c upgraded_def hero_branches [OF n])
  next
    case slashes
    then show ?thesis by (simp add: normalizeUrl_upgraded c upgraded_slashes hero_slashes)
  next
    case slash
    then show ?thesis
      using slash_no_protocol [of ?t] slash_no_domain [of ?t]
      by (simp add: normalizeUrl_upgraded c upgraded_def hero_branches [OF n])
  next
    case dom
    then show ?thesis by (simp add: normalizeUrl_upgraded c upgraded_domain hero_domain)
  qed
qed

lemma normalizers_differ:
  assumes s: "s \<noteq> []"
    and k: "\<not> (trim s \<noteq> [] \<and> clean s = trim s \<and>
              ((test_prefix protocolPattern (trim s) \<and> \<not> test_prefix httpPattern (trim s))
               \<or> startsWith (trim s) ''/'' \<or> looks_like_domain (trim s)))"
  shows "normalizeUrl s \<noteq> hero_normalizeUrl s"
proof (cases "trim s = []")
  case True
  then have "hero_normalizeUrl s = s" by (simp add: hero_normalizeUrl_def)
  moreover have "normalizeUrl s = []"
    using True by (simp add: normalizeUrl_upgraded clean_def upgraded_Nil)
  ultimately show ?thesis using s by simp
next
  case n: False
  let ?t = "trim s"
  show ?thesis
  proof (cases "clean s = ?t")
    case False
    then have "last ?t = CHR ''/''"
      using strip_fixed [of ?t] n by (auto simp: clean_def)
    then have h: "hero_normalizeUrl s \<noteq> [] \<and> last (hero_normalizeUrl s) = CHR ''/''"
      using hero_last [OF n] by simp
    have "clean s = [] \<or> last (clean s) \<noteq> CHR ''/''" using clean_last [of s] by blast
    from upgraded_last [OF this] h show ?thesis
      by (auto simp: normalizeUrl_upgraded)
  next
    case c: True
    from k n c have no: "\<not> (test_prefix protocolPattern ?t \<and> \<not> test_prefix httpPattern ?t)"
      "\<not> startsWith ?t ''/''" "\<not> looks_like_domain ?t" by auto
    show ?thesis
    proof (cases "test_prefix protocolPattern ?t")
      case True
      then have "test_prefix httpPattern ?t" using no(1) by simp
      then obtain a b c' d x where u: "?t = a # b # c' # d # ''://'' @ x"
        by (auto simp: http_shape)
      have "upgraded ?t = ''https://'' @ x"
        using True \<open>test_prefix httpPattern ?t\<close> u by (simp add: upgraded_def)
      moreover have "hero_normalizeUrl s = ?t" using True by (simp add: hero_branches [OF n])
      ultimately show ?thesis using u by (simp add: normalizeUrl_upgraded c)
    next
      case False
      have ns: "\<not> startsWith ?t ''//''" using no(2) slashes_slash by blast
      have "upgraded ?t = ?t" using False ns no(3) by (simp add: upgraded_def)
      moreover have "hero_normalizeUrl s = ''https://'' @ ?t"
        using False ns no(2) by (simp add: hero_branches [OF n])
      ultimately show ?thesis by (simp add: normalizeUrl_upgraded c)
    qed
  qed
qed

text \<open>
  C9, amended. The two normalisers return the same string exactly on these inputs: the
  empty string, and every input whose trimmed form is not empty, has no trailing slash,
  and either starts with \<^verbatim>\<open>https://\<close> (in any letter case), or starts with a slash, or
  matches one of the four domain patterns. On every other input they differ.
\<close>

theorem normalizers_agree_iff:
  "normalizeUrl s = hero_normalizeUrl s \<longleftrightarrow>
     s = [] \<or>
     (trim s \<noteq> [] \<and> clean s = trim s \<and>
       ((test_prefix protocolPattern (trim s) \<and> \<not> test_prefix httpPattern (trim s))
        \<or> startsWith (trim s) ''/'' \<or> looks_like_domain (trim s)))"
proof (cases "s = []")
  case True
  then show ?thesis by (simp add: normalizeUrl_def hero_normalizeUrl_def)
next
  case False
  show ?thesis
    using False normalizers_agree_if [of s] normalizers_differ [OF False] by blast
qed

text \<open>A bare domain with a path and surrounding blanks: both return the same address.\<close>

theorem normalizers_agree_iff_witness:
  "normalizeUrl '' www.example.com/docs '' = hero_normalizeUrl '' www.example.com/docs ''
 \<and> hero_normalizeUrl '' www.example.com/docs '' = ''https://www.example.com/docs''"
proof -
  let ?s = "'' www.example.com/docs ''"
  have 1: "trim ?s \<noteq> []" by code_simp
  have 2: "clean ?s = trim ?s" by code_simp
  have 3: "looks_like_domain (trim ?s)" by code_simp
  have 4: "hero_normalizeUrl ?s = ''https://www.example.com/docs''" by code_simp
  show ?thesis
    using normalizers_agree_iff [of ?s] 1 2 3 4 by simp
qed

text \<open>
  The claim C9 as stated fails: only \<^verbatim>\<open>normalizeUrl\<close> upgrades \<^verbatim>\<open>http\<close> and removes
  trailing slashes, and only the Hero normaliser prefixes a word that is not a domain.
\<close>

theorem normalizers_differ_counterexample:
  "normalizeUrl ''http://example.com'' = ''https://example.com''
 \<and> hero_normalizeUrl ''http://example.com'' = ''http://example.com''
 \<and> normalizeUrl ''example.com/'' = ''https://example.com''
 \<and> hero_normalizeUrl ''example.com/'' = ''https://example.com/''
 \<and> normalizeUrl ''intranet'' = ''intranet''
 \<and> hero_normalizeUrl ''intranet'' = ''https://intranet''"
  by code_simp

end
